theory Spec2Isabelle
  imports Main
begin

section \<open>Values at the parser's boundary\<close>

text \<open>
  The raw feed and story dicts hold Python values that are a \<^verbatim>\<open>str\<close> or
  \<^verbatim>\<open>None\<close>.  Such a value is a \<open>string option\<close>; a character of the model is a
  code point of the Python string, so \<open>length\<close> is Python's \<^verbatim>\<open>len\<close> and
  \<open>take n\<close> is the slice \<^verbatim>\<open>[:n]\<close>.
\<close>

type_synonym pystr = "string option"

definition is_null :: "pystr \<Rightarrow> bool" where
  "is_null v = (case v of None \<Rightarrow> True | Some s \<Rightarrow> s = [])"

text \<open>Python's \<^verbatim>\<open>a or b\<close> on such values: \<^verbatim>\<open>None\<close> and \<^verbatim>\<open>''\<close> are falsy.\<close>

definition py_or :: "pystr \<Rightarrow> pystr \<Rightarrow> pystr" where
  "py_or a b = (if is_null a then b else a)"

text \<open>\<^verbatim>\<open>story['content'] or ''\<close>.\<close>

definition or_empty :: "pystr \<Rightarrow> string" where
  "or_empty v = (case v of None \<Rightarrow> [] | Some s \<Rightarrow> s)"

text \<open>
  The dicts of \<^verbatim>\<open>RawFeedResult\<close>, with the keys the parser reads.  The ident of a
  story is sliced by the parser, so it is a string.
\<close>

record 'dt raw_story =
  rs_ident :: string
  rs_title :: pystr
  rs_url :: pystr
  rs_content :: pystr
  rs_summary :: pystr
  rs_image_url :: pystr
  rs_dt_published :: "'dt option"
  rs_dt_updated :: "'dt option"
  rs_author_name :: pystr
  rs_author_url :: pystr
  rs_author_avatar_url :: pystr

record 'dt raw_feed =
  rf_version :: pystr
  rf_title :: pystr
  rf_url :: pystr
  rf_home_url :: pystr
  rf_icon_url :: pystr
  rf_description :: pystr
  rf_dt_updated :: "'dt option"
  rf_author_name :: pystr
  rf_author_url :: pystr
  rf_author_avatar_url :: pystr

record 'dt RawFeedResult =
  raw_feed :: "'dt raw_feed"
  raw_storys :: "'dt raw_story list"

text \<open>The dicts the parser builds, before and after validation.\<close>

record 'dt story =
  s_ident :: pystr
  s_title :: pystr
  s_url :: pystr
  s_content :: pystr
  s_summary :: pystr
  s_has_mathjax :: bool
  s_image_url :: pystr
  s_dt_published :: "'dt option"
  s_dt_updated :: "'dt option"
  s_author_name :: pystr
  s_author_url :: pystr
  s_author_avatar_url :: pystr

record 'dt feed =
  f_version :: pystr
  f_title :: pystr
  f_url :: pystr
  f_home_url :: pystr
  f_icon_url :: pystr
  f_description :: pystr
  f_dt_updated :: "'dt option"
  f_author_name :: pystr
  f_author_url :: pystr
  f_author_avatar_url :: pystr

text \<open>
  \<^verbatim>\<open>FeedResult\<close>: the feed, the stories and a reference to the checksum object
  (an index into the store of checksum objects, see below).
\<close>

record 'dt FeedResult =
  r_feed :: "'dt feed"
  r_storys :: "'dt story list"
  r_checksum :: nat

section \<open>Errors and the log\<close>

text \<open>
  validr's \<^verbatim>\<open>Invalid\<close> carries the position of the offending value (dict keys and
  list indexes, outermost first) and a message.  \<^verbatim>\<open>FeedParserError(str(ex))\<close>
  carries the text of the \<^verbatim>\<open>Invalid\<close>, that is its position and its message.
\<close>

datatype position = Key string | Index nat

datatype reason = required | maxlen_exceeded nat | invalid string

datatype Invalid = Invalid (position: "position list") (message: reason)

datatype FeedParserError = FeedParserError Invalid

definition mark_index :: "nat \<Rightarrow> Invalid \<Rightarrow> Invalid" where
  "mark_index i ex = Invalid (Index i # position ex) (message ex)"

text \<open>The one record the parser logs: the warning of \<^verbatim>\<open>_process_content\<close>.\<close>

datatype log_record = too_large_story pystr nat

section \<open>What the parser imports\<close>

text \<open>
  The functions of \<^verbatim>\<open>processor\<close>, \<^verbatim>\<open>shorten\<close>, the class
  \<^verbatim>\<open>FeedChecksum\<close> and the validators of validr are not part of the sources at
  hand.  The parser is modelled over any choice of them: they are the fields of
  \<open>deps\<close>.  A checksum object has a value of type \<open>'c\<close>; \<open>checksum_update\<close>
  is \<^verbatim>\<open>FeedChecksum.update\<close> on that value (the answer and the new value), and
  \<open>checksum_new\<close> is the value of \<^verbatim>\<open>FeedChecksum()\<close>.  \<open>url_validate\<close>
  and \<open>datetime_validate\<close> are validr's checks of a non-null url and datetime;
  \<open>str_maxlen_default\<close> is the length validr allows a \<^verbatim>\<open>T.str\<close> without
  \<^verbatim>\<open>maxlen\<close>.
\<close>

record ('c, 'dt) deps =
  story_html_to_text :: "pystr \<Rightarrow> string"
  story_html_clean :: "pystr \<Rightarrow> string"
  story_has_mathjax :: "string \<Rightarrow> bool"
  process_story_links :: "string \<Rightarrow> pystr \<Rightarrow> string"
  normlize_url :: "pystr \<Rightarrow> pystr \<Rightarrow> pystr"
  validate_url :: "pystr \<Rightarrow> reason + pystr"
  shorten :: "string \<Rightarrow> nat \<Rightarrow> string"
  url_validate :: "string \<Rightarrow> reason + string"
  datetime_validate :: "'dt \<Rightarrow> reason + 'dt"
  str_maxlen_default :: nat
  checksum_new :: 'c
  checksum_update :: "'c \<Rightarrow> string \<Rightarrow> string \<Rightarrow> bool \<times> 'c"

section \<open>The schemas\<close>

text \<open>
  A validr field validator: a null value (\<^verbatim>\<open>None\<close> or the empty string) is
  absent when the field is \<^verbatim>\<open>optional\<close> and an error otherwise; a value the
  check refuses is absent when the field is \<^verbatim>\<open>invalid_to_default\<close> and an
  error otherwise.  An absent value is \<open>None\<close>.
\<close>

definition field_validator ::
  "bool \<Rightarrow> bool \<Rightarrow> (string \<Rightarrow> reason + string) \<Rightarrow> pystr \<Rightarrow> reason + pystr" where
  "field_validator optional invalid_to_default check v =
     (case v of
        None \<Rightarrow> if optional then Inr None else Inl required
      | Some s \<Rightarrow>
          if s = [] then (if optional then Inr None else Inl required)
          else (case check s of
                  Inr x \<Rightarrow> Inr (Some x)
                | Inl msg \<Rightarrow> if invalid_to_default then Inr None else Inl msg))"

definition str_check :: "nat \<Rightarrow> string \<Rightarrow> reason + string" where
  "str_check maxlen s = (if length s > maxlen then Inl (maxlen_exceeded maxlen) else Inr s)"

text \<open>\<^verbatim>\<open>T.str.maxlen(n)\<close> and \<^verbatim>\<open>T.str.maxlen(n).optional\<close>.\<close>

definition T_str :: "nat \<Rightarrow> bool \<Rightarrow> pystr \<Rightarrow> reason + pystr" where
  "T_str maxlen optional = field_validator optional False (str_check maxlen)"

text \<open>\<^verbatim>\<open>T.url\<close>, \<^verbatim>\<open>T.url.optional\<close> and \<^verbatim>\<open>T.url.invalid_to_default.optional\<close>.\<close>

definition T_url :: "('c, 'dt) deps \<Rightarrow> bool \<Rightarrow> bool \<Rightarrow> pystr \<Rightarrow> reason + pystr" where
  "T_url D optional invalid_to_default =
     field_validator optional invalid_to_default (url_validate D)"

text \<open>\<^verbatim>\<open>T.datetime.object.optional\<close>.\<close>

definition T_datetime :: "('c, 'dt) deps \<Rightarrow> 'dt option \<Rightarrow> reason + 'dt option" where
  "T_datetime D v =
     (case v of
        None \<Rightarrow> Inr None
      | Some d \<Rightarrow> (case datetime_validate D d of Inr x \<Rightarrow> Inr (Some x) | Inl msg \<Rightarrow> Inl msg))"

text \<open>
  One key of a dict schema: the validator runs on the value of the key, and an error
  is marked with the key.
\<close>

definition at_key :: "string \<Rightarrow> reason + 'a \<Rightarrow> Invalid + 'a" where
  "at_key k r = (case r of Inl msg \<Rightarrow> Inl (Invalid [Key k] msg) | Inr x \<Rightarrow> Inr x)"

definition bind :: "Invalid + 'a \<Rightarrow> ('a \<Rightarrow> Invalid + 'b) \<Rightarrow> Invalid + 'b" where
  "bind r f = (case r of Inl ex \<Rightarrow> Inl ex | Inr x \<Rightarrow> f x)"

text \<open>\<^verbatim>\<open>validate_story = compiler.compile(StorySchema)\<close>, key by key.\<close>

definition validate_story :: "('c, 'dt) deps \<Rightarrow> 'dt story \<Rightarrow> Invalid + 'dt story" where
  "validate_story D s =
     bind (at_key ''ident'' (T_str 200 False (s_ident s))) (\<lambda>ident.
     bind (at_key ''title'' (T_str 200 False (s_title s))) (\<lambda>title.
     bind (at_key ''url'' (T_url D True False (s_url s))) (\<lambda>url.
     bind (at_key ''content'' (T_str (str_maxlen_default D) True (s_content s))) (\<lambda>content.
     bind (at_key ''summary'' (T_str 300 True (s_summary s))) (\<lambda>summary.
     bind (at_key ''image_url'' (T_url D True True (s_image_url s))) (\<lambda>image_url.
     bind (at_key ''dt_published'' (T_datetime D (s_dt_published s))) (\<lambda>dt_published.
     bind (at_key ''dt_updated'' (T_datetime D (s_dt_updated s))) (\<lambda>dt_updated.
     bind (at_key ''author_name'' (T_str 100 True (s_author_name s))) (\<lambda>author_name.
     bind (at_key ''author_url'' (T_url D True True (s_author_url s))) (\<lambda>author_url.
     bind (at_key ''author_avatar_url'' (T_url D True True (s_author_avatar_url s)))
       (\<lambda>author_avatar_url.
     Inr \<lparr>s_ident = ident, s_title = title, s_url = url, s_content = content,
          s_summary = summary, s_has_mathjax = s_has_mathjax s, s_image_url = image_url,
          s_dt_published = dt_published, s_dt_updated = dt_updated,
          s_author_name = author_name, s_author_url = author_url,
          s_author_avatar_url = author_avatar_url\<rparr>)))))))))))"

text \<open>\<^verbatim>\<open>validate_feed = compiler.compile(FeedSchema)\<close>.\<close>

definition validate_feed :: "('c, 'dt) deps \<Rightarrow> 'dt feed \<Rightarrow> Invalid + 'dt feed" where
  "validate_feed D f =
     bind (at_key ''version'' (T_str 200 False (f_version f))) (\<lambda>version.
     bind (at_key ''title'' (T_str 200 False (f_title f))) (\<lambda>title.
     bind (at_key ''url'' (T_url D False False (f_url f))) (\<lambda>url.
     bind (at_key ''home_url'' (T_url D True True (f_home_url f))) (\<lambda>home_url.
     bind (at_key ''icon_url'' (T_url D True True (f_icon_url f))) (\<lambda>icon_url.
     bind (at_key ''description'' (T_str 300 True (f_description f))) (\<lambda>description.
     bind (at_key ''dt_updated'' (T_datetime D (f_dt_updated f))) (\<lambda>dt_updated.
     bind (at_key ''author_name'' (T_str 100 True (f_author_name f))) (\<lambda>author_name.
     bind (at_key ''author_url'' (T_url D True True (f_author_url f))) (\<lambda>author_url.
     bind (at_key ''author_avatar_url'' (T_url D True True (f_author_avatar_url f)))
       (\<lambda>author_avatar_url.
     Inr \<lparr>f_version = version, f_title = title, f_url = url, f_home_url = home_url,
          f_icon_url = icon_url, f_description = description, f_dt_updated = dt_updated,
          f_author_name = author_name, f_author_url = author_url,
          f_author_avatar_url = author_avatar_url\<rparr>))))))))))"

section \<open>The parser\<close>

text \<open>
  Checksum objects live in a store, a list indexed by reference, so that the object
  handed to the constructor and the parser's own object are two places.  A reference
  is an index below the length of the store; the constructor makes one.  A
  \<^verbatim>\<open>FeedParser\<close> holds the reference of its checksum and the validate flag.
\<close>

type_synonym 'c store = "'c list"

record FeedParser =
  p_checksum :: nat
  p_validate :: bool

text \<open>
  \<^verbatim>\<open>FeedParser.__init__\<close>: a new checksum object, empty when none is given and a
  copy of the given one otherwise.
\<close>

definition FeedParser_init ::
  "('c, 'dt) deps \<Rightarrow> 'c store \<Rightarrow> nat option \<Rightarrow> bool \<Rightarrow> FeedParser \<times> 'c store" where
  "FeedParser_init D \<sigma> checksum validate =
     (case checksum of
        None \<Rightarrow> (\<lparr>p_checksum = length \<sigma>, p_validate = validate\<rparr>, \<sigma> @ [checksum_new D])
      | Some a \<Rightarrow> (\<lparr>p_checksum = length \<sigma>, p_validate = validate\<rparr>, \<sigma> @ [\<sigma> ! a]))"

definition parse_feed :: "('c, 'dt) deps \<Rightarrow> 'dt raw_feed \<Rightarrow> 'dt feed" where
  "parse_feed D feed =
     (let url = rf_url feed;
          title = take 200 (story_html_to_text D (rf_title feed));
          home_url = normlize_url D (rf_home_url feed) url;
          icon_url = normlize_url D (rf_icon_url feed) url;
          description = take 300 (story_html_to_text D (rf_description feed));
          author_name = take 100 (story_html_to_text D (rf_author_name feed));
          author_url = normlize_url D (rf_author_url feed) url;
          author_avatar_url = normlize_url D (rf_author_avatar_url feed) url
      in \<lparr>f_version = rf_version feed, f_title = Some title, f_url = url,
           f_home_url = home_url, f_icon_url = icon_url, f_description = Some description,
           f_dt_updated = rf_dt_updated feed, f_author_name = Some author_name,
           f_author_url = author_url, f_author_avatar_url = author_avatar_url\<rparr>)"

text \<open>\<^verbatim>\<open>_process_content\<close>: the content and what was logged.\<close>

definition process_content ::
  "('c, 'dt) deps \<Rightarrow> pystr \<Rightarrow> pystr \<Rightarrow> string \<times> log_record list" where
  "process_content D content link =
     (let content1 = story_html_clean D content;
          (content2, logged) =
            (if length content1 \<ge> 1024 * 1024
             then (story_html_to_text D (Some content1),
                   [too_large_story link (length content1)])
             else (content1, []))
      in (process_story_links D content2 link, logged))"

text \<open>\<^verbatim>\<open>_parse_story\<close>: the story dict and what was logged.\<close>

definition parse_story ::
  "('c, 'dt) deps \<Rightarrow> 'dt raw_story \<Rightarrow> pystr \<Rightarrow> 'dt story \<times> log_record list" where
  "parse_story D story feed_url =
     (let ident = take 200 (rs_ident story);
          title = take 200 (story_html_to_text D (rs_title story));
          url = normlize_url D (py_or (rs_url story) (Some (rs_ident story))) feed_url;
          valid_url = (case validate_url D url of Inr v \<Rightarrow> v | Inl ex \<Rightarrow> None);
          base_url = py_or valid_url feed_url;
          image_url = normlize_url D (rs_image_url story) base_url;
          author_name = take 100 (story_html_to_text D (rs_author_name story));
          author_url = normlize_url D (rs_author_url story) base_url;
          author_avatar_url = normlize_url D (rs_author_avatar_url story) base_url;
          (content, logged) = process_content D (rs_content story) base_url;
          summary = story_html_clean D (rs_summary story);
          summary = shorten D (story_html_to_text D (Some summary)) 300;
          has_mathjax = story_has_mathjax D content
      in (\<lparr>s_ident = Some ident, s_title = Some title, s_url = valid_url,
            s_content = Some content, s_summary = Some summary,
            s_has_mathjax = has_mathjax, s_image_url = image_url,
            s_dt_published = rs_dt_published story, s_dt_updated = rs_dt_updated story,
            s_author_name = Some author_name, s_author_url = author_url,
            s_author_avatar_url = author_avatar_url\<rparr>, logged))"

text \<open>
  The loop of \<^verbatim>\<open>_validate_result\<close> over \<^verbatim>\<open>enumerate(result.storys)\<close>, from
  index \<open>i\<close> on: the first \<^verbatim>\<open>Invalid\<close> leaves the loop, marked with the index.
\<close>

fun validate_storys ::
  "('c, 'dt) deps \<Rightarrow> nat \<Rightarrow> 'dt story list \<Rightarrow> Invalid + 'dt story list" where
  "validate_storys D i [] = Inr []"
| "validate_storys D i (s # ss) =
     (case validate_story D s of
        Inl ex \<Rightarrow> Inl (mark_index i ex)
      | Inr s' \<Rightarrow>
          (case validate_storys D (Suc i) ss of
             Inl ex \<Rightarrow> Inl ex
           | Inr ss' \<Rightarrow> Inr (s' # ss')))"

definition validate_result ::
  "('c, 'dt) deps \<Rightarrow> 'dt FeedResult \<Rightarrow> FeedParserError + 'dt FeedResult" where
  "validate_result D result =
     (case validate_feed D (r_feed result) of
        Inl ex \<Rightarrow> Inl (FeedParserError ex)
      | Inr feed \<Rightarrow>
          (case validate_storys D 0 (r_storys result) of
             Inl ex \<Rightarrow> Inl (FeedParserError ex)
           | Inr storys \<Rightarrow>
               Inr \<lparr>r_feed = feed, r_storys = storys, r_checksum = r_checksum result\<rparr>))"

text \<open>
  The loop of \<^verbatim>\<open>_check_update_storys\<close> on the value of the parser's checksum
  object: the stories \<^verbatim>\<open>update\<close> answers true for, in order, and the value the
  object is left with.
\<close>

fun check_update_storys ::
  "('c, 'dt) deps \<Rightarrow> 'c \<Rightarrow> 'dt raw_story list \<Rightarrow> 'dt raw_story list \<times> 'c" where
  "check_update_storys D c [] = ([], c)"
| "check_update_storys D c (story # storys) =
     (let ident = rs_ident story;
          content = or_empty (rs_content story);
          (changed, c') = checksum_update D c ident content;
          (update_storys, c'') = check_update_storys D c' storys
      in (if changed then story # update_storys else update_storys, c''))"

text \<open>The loop of \<^verbatim>\<open>parse\<close> over the stories to update.\<close>

definition parse_storys ::
  "('c, 'dt) deps \<Rightarrow> 'dt raw_story list \<Rightarrow> pystr \<Rightarrow> 'dt story list \<times> log_record list" where
  "parse_storys D update_storys feed_url =
     (map (\<lambda>story. fst (parse_story D story feed_url)) update_storys,
      concat (map (\<lambda>story. snd (parse_story D story feed_url)) update_storys))"

text \<open>
  \<^verbatim>\<open>parse\<close>: the result or the error raised, the records logged, and the store
  afterwards.  The checksum object of the parser is updated in place before anything
  can raise.
\<close>

definition parse ::
  "('c, 'dt) deps \<Rightarrow> 'c store \<Rightarrow> FeedParser \<Rightarrow> 'dt RawFeedResult \<Rightarrow>
     (FeedParserError + 'dt FeedResult) \<times> log_record list \<times> 'c store" where
  "parse D \<sigma> self raw =
     (let (update_storys, c) = check_update_storys D (\<sigma> ! p_checksum self) (raw_storys raw);
          \<sigma>' = \<sigma>[p_checksum self := c];
          feed = parse_feed D (raw_feed raw);
          feed_url = f_url feed;
          (storys, logged) = parse_storys D update_storys feed_url;
          result = \<lparr>r_feed = feed, r_storys = storys, r_checksum = p_checksum self\<rparr>
      in (if p_validate self then validate_result D result else Inr result, logged, \<sigma>'))"

section \<open>The checksum\<close>

text \<open>
  Modelled from the spec: the class \<^verbatim>\<open>FeedChecksum\<close> (its module is not among the
  sources).  It owns a mapping from ident to content hash; \<^verbatim>\<open>update(ident, content)\<close>
  hashes the content and compares it with the hash stored for the ident: an equal hash
  is unchanged, anything else is new or changed and the new hash is recorded.  The hash
  function is \<open>h\<close>.
\<close>

type_synonym 'h FeedChecksum = "string \<rightharpoonup> 'h"

definition FeedChecksum_update ::
  "(string \<Rightarrow> 'h) \<Rightarrow> 'h FeedChecksum \<Rightarrow> string \<Rightarrow> string \<Rightarrow> bool \<times> 'h FeedChecksum" where
  "FeedChecksum_update h c ident content =
     (if c ident = Some (h content) then (False, c) else (True, c(ident \<mapsto> h content)))"

text \<open>The parser runs on \<^verbatim>\<open>FeedChecksum\<close> with hash \<open>h\<close>.\<close>

definition uses_FeedChecksum :: "(string \<Rightarrow> 'h) \<Rightarrow> ('h FeedChecksum, 'dt) deps \<Rightarrow> bool" where
  "uses_FeedChecksum h D =
     (checksum_new D = Map.empty \<and> checksum_update D = FeedChecksum_update h)"

section \<open>An instance to run the parser on\<close>

text \<open>
  The plainest choice of the imported functions: text is left as it is (as cleaning
  and flattening leave a text without markup), a url is valid when it starts with
  \<^verbatim>\<open>http\<close>, \<^verbatim>\<open>shorten\<close> cuts, the hash of a content is the content, and a
  \<^verbatim>\<open>T.str\<close> without \<^verbatim>\<open>maxlen\<close> allows 1 MiB, which is the default of validr's
  \<^verbatim>\<open>str\<close> validator (\<^verbatim>\<open>maxlen=1024 * 1024\<close>).
\<close>

definition http_check :: "string \<Rightarrow> reason + string" where
  "http_check s = (if take 4 s = ''http'' then Inr s else Inl (invalid ''url''))"

definition plain_deps :: "(string FeedChecksum, nat) deps" where
  "plain_deps =
     \<lparr>story_html_to_text = or_empty,
      story_html_clean = or_empty,
      story_has_mathjax = (\<lambda>content. False),
      process_story_links = (\<lambda>content link. content),
      normlize_url = (\<lambda>url base_url. url),
      validate_url = field_validator False False http_check,
      shorten = (\<lambda>text width. take width text),
      url_validate = http_check,
      datetime_validate = Inr,
      str_maxlen_default = 1024 * 1024,
      checksum_new = Map.empty,
      checksum_update = FeedChecksum_update (\<lambda>content. content)\<rparr>"

definition plain_feed :: "nat raw_feed" where
  "plain_feed =
     \<lparr>rf_version = Some ''rss20'', rf_title = Some ''feed'', rf_url = Some ''http://f'',
      rf_home_url = None, rf_icon_url = None, rf_description = None, rf_dt_updated = None,
      rf_author_name = None, rf_author_url = None, rf_author_avatar_url = None\<rparr>"

text \<open>A story with the given ident, url and content and nothing else.\<close>

definition plain_story :: "string \<Rightarrow> pystr \<Rightarrow> string \<Rightarrow> nat raw_story" where
  "plain_story ident url content =
     \<lparr>rs_ident = ident, rs_title = Some ''story'', rs_url = url,
      rs_content = Some content, rs_summary = None, rs_image_url = None,
      rs_dt_published = None, rs_dt_updated = None, rs_author_name = None,
      rs_author_url = None, rs_author_avatar_url = None\<rparr>"

section \<open>The fetcher\<close>

text \<open>
  Modelled from the spec: the modules \<^verbatim>\<open>reader\<close> and \<^verbatim>\<open>async_reader\<close>
  (\<^verbatim>\<open>FeedReader\<close>, \<^verbatim>\<open>AsyncFeedReader\<close>, \<^verbatim>\<open>FeedResponseStatus\<close>) are not among
  the sources, only their tests are.  What follows is the Fetcher of sections 3 and 4.1
  to 4.5 of the spec: the status codes, \<^verbatim>\<open>FetchResponse\<close>, and \<^verbatim>\<open>read\<close> with
  its two paths.  Bytes are a list of characters.  Name resolution, the address
  classes, the two requests, the content sniffer and the encoding detector are the
  fields of \<open>world\<close>; a request answers with a response or fails in transport.
  \<^verbatim>\<open>read\<close> returns its response together with what it did on the network, in
  order.
\<close>

datatype transport_failure = dns_failure | connection_failure | timeout


















section \<open>Facts about the schemas\<close>

lemma bind_Inr: "bind r f = Inr y \<longleftrightarrow> (\<exists>x. r = Inr x \<and> f x = Inr y)"
  by (cases r) (simp_all add: bind_def)

lemma bind_Inl: "bind r f = Inl e \<longleftrightarrow> r = Inl e \<or> (\<exists>x. r = Inr x \<and> f x = Inl e)"
  by (cases r) (simp_all add: bind_def)

lemma at_key_Inr: "at_key k r = Inr x \<longleftrightarrow> r = Inr x"
  by (cases r) (simp_all add: at_key_def)

lemma at_key_Inl: "at_key k r = Inl e \<longleftrightarrow> (\<exists>m. r = Inl m \<and> e = Invalid [Key k] m)"
  by (cases r) (auto simp: at_key_def)

lemma T_str_required_Inr:
  "T_str n False v = Inr x \<Longrightarrow> x = v \<and> \<not> is_null v"
  by (auto simp: T_str_def field_validator_def str_check_def is_null_def
      split: option.splits if_splits sum.splits)

lemma T_str_take: "T_str n False (Some (take n s)) \<noteq> Inl (maxlen_exceeded m)"
  by (auto simp: T_str_def field_validator_def str_check_def
      split: option.splits if_splits sum.splits)

lemma validate_story_ident:
  "validate_story D s = Inr s' \<Longrightarrow> s_ident s' = s_ident s"
  unfolding validate_story_def bind_Inr at_key_Inr
  by (auto dest: T_str_required_Inr)

lemma validate_story_ident_error:
  "validate_story D s = Inl (Invalid [Key ''ident''] m) \<Longrightarrow> T_str 200 False (s_ident s) = Inl m"
  unfolding validate_story_def bind_Inl at_key_Inl
  by auto

lemma validate_feed_error_position:
  "validate_feed D f = Inl ex \<Longrightarrow> \<exists>k. position ex = [Key k]"
  unfolding validate_feed_def bind_Inl at_key_Inl
  by auto

lemma validate_storys_idents:
  "validate_storys D i ss = Inr ss' \<Longrightarrow> map s_ident ss' = map s_ident ss"
  by (induction ss arbitrary: i ss')
     (auto split: sum.splits dest: validate_story_ident)

lemma validate_storys_error:
  "validate_storys D i ss = Inl ex \<Longrightarrow>
     \<exists>j s e. j < length ss \<and> s = ss ! j \<and> validate_story D s = Inl e \<and> ex = mark_index (i + j) e"
proof (induction ss arbitrary: i)
  case Nil
  then show ?case by simp
next
  case (Cons s ss)
  show ?case
  proof (cases "validate_story D s")
    case (Inl e)
    with Cons.prems have "ex = mark_index (i + 0) e" by simp
    with Inl show ?thesis by (intro exI [of _ 0]) auto
  next
    case (Inr s')
    with Cons.prems have "validate_storys D (Suc i) ss = Inl ex"
      by (simp split: sum.splits)
    from Cons.IH [OF this] obtain j e where
      "j < length ss" "validate_story D (ss ! j) = Inl e" "ex = mark_index (Suc i + j) e"
      by auto
    then show ?thesis by (intro exI [of _ "Suc j"]) auto
  qed
qed

section \<open>The ident of a parsed story\<close>

lemma parse_story_ident: "s_ident (fst (parse_story D story feed_url)) = Some (take 200 (rs_ident story))"
  by (simp add: parse_story_def Let_def split: prod.splits)

lemma parse_storys_idents:
  "map s_ident (fst (parse_storys D us feed_url)) = map (\<lambda>s. Some (take 200 (rs_ident s))) us"
  by (simp add: parse_storys_def parse_story_ident)

text \<open>
  C1, as the code has it.  \<^verbatim>\<open>_parse_story\<close> cuts the ident to its first 200
  characters before the story reaches the schema, so a story is never rejected for the
  length of its ident: no error of \<^verbatim>\<open>parse\<close> is a length error of the ident of a
  story, and when \<^verbatim>\<open>parse\<close> returns, the idents of the result are the first 200
  characters of the raw idents of the stories the checksum retained, in order (an ident
  of at most 200 characters is unchanged, a longer one is rewritten to its prefix).
\<close>

theorem ident_cut_not_rejected:
  "(case fst (parse D \<sigma> self raw) of
      Inl err \<Rightarrow> (\<forall>i n. err \<noteq> FeedParserError (Invalid [Index i, Key ''ident''] (maxlen_exceeded n)))
    | Inr r \<Rightarrow>
        map s_ident (r_storys r) =
        map (\<lambda>s. Some (take 200 (rs_ident s)))
          (fst (check_update_storys D (\<sigma> ! p_checksum self) (raw_storys raw))))"
proof -
  obtain us c where cu: "check_update_storys D (\<sigma> ! p_checksum self) (raw_storys raw) = (us, c)"
    by (cases "check_update_storys D (\<sigma> ! p_checksum self) (raw_storys raw)")
  define feed where "feed = parse_feed D (raw_feed raw)"
  obtain ss lg where ps: "parse_storys D us (f_url feed) = (ss, lg)"
    by (cases "parse_storys D us (f_url feed)")
  define result where "result = \<lparr>r_feed = feed, r_storys = ss, r_checksum = p_checksum self\<rparr>"
  have p: "fst (parse D \<sigma> self raw) = (if p_validate self then validate_result D result else Inr result)"
    by (simp add: parse_def cu ps [unfolded feed_def] Let_def feed_def result_def)
  have ids: "map s_ident ss = map (\<lambda>s. Some (take 200 (rs_ident s))) us"
    using parse_storys_idents [of D us "f_url feed"] ps by simp
  show ?thesis
  proof (cases "p_validate self")
    case False
    with p ids show ?thesis by (simp add: cu result_def)
  next
    case True
    show ?thesis
    proof (cases "validate_result D result")
      case (Inr r)
      then obtain ss' where "validate_storys D 0 ss = Inr ss'" "r_storys r = ss'"
        by (auto simp: validate_result_def result_def split: sum.splits)
      with validate_storys_idents [of D 0 ss ss'] ids Inr p True show ?thesis
        by (simp add: cu)
    next
      case (Inl err)
      have "err \<noteq> FeedParserError (Invalid [Index i, Key ''ident''] (maxlen_exceeded n))" for i n
      proof
        assume e: "err = FeedParserError (Invalid [Index i, Key ''ident''] (maxlen_exceeded n))"
        from Inl consider
          (feed) "validate_feed D feed = Inl (Invalid [Index i, Key ''ident''] (maxlen_exceeded n))"
          | (storys) "validate_storys D 0 ss = Inl (Invalid [Index i, Key ''ident''] (maxlen_exceeded n))"
          unfolding e by (auto simp: validate_result_def result_def split: sum.splits)
        then show False
        proof cases
          case feed
          from validate_feed_error_position [OF this] show False by simp
        next
          case storys
          from validate_storys_error [OF this] obtain j e' where
            j: "j < length ss" and v: "validate_story D (ss ! j) = Inl e'"
            and m: "Invalid [Index i, Key ''ident''] (maxlen_exceeded n) = mark_index (0 + j) e'"
            by auto
          from m have e': "e' = Invalid [Key ''ident''] (maxlen_exceeded n)"
            by (cases e') (simp add: mark_index_def)
          from validate_story_ident_error [OF v [unfolded e']]
          have t: "T_str 200 False (s_ident (ss ! j)) = Inl (maxlen_exceeded n)" .
          from ids j have "s_ident (ss ! j) = Some (take 200 (rs_ident (us ! j)))"
            by (metis length_map nth_map)
          with t T_str_take show False by metis
        qed
      qed
      with Inl p True show ?thesis by simp
    qed
  qed
qed

text \<open>
  C1 as stated fails: a raw feed whose one story has an ident of 201 characters is
  parsed with validation on, and the story is returned with the ident cut to 200
  characters.
\<close>

theorem long_ident_parsed:
  "length (replicate 201 CHR ''a'') > 200 \<and>
   fst (parse plain_deps (snd (FeedParser_init plain_deps [] None True))
          (fst (FeedParser_init plain_deps [] None True))
          \<lparr>raw_feed = plain_feed,
           raw_storys = [plain_story (replicate 201 CHR ''a'') (Some ''http://s'') ''c'']\<rparr>) =
   Inr \<lparr>r_feed =
          \<lparr>f_version = Some ''rss20'', f_title = Some ''feed'', f_url = Some ''http://f'',
           f_home_url = None, f_icon_url = None, f_description = None, f_dt_updated = None,
           f_author_name = None, f_author_url = None, f_author_avatar_url = None\<rparr>,
        r_storys =
          [\<lparr>s_ident = Some (replicate 200 CHR ''a''), s_title = Some ''story'',
            s_url = Some ''http://s'', s_content = Some ''c'', s_summary = None,
            s_has_mathjax = False, s_image_url = None, s_dt_published = None,
            s_dt_updated = None, s_author_name = None, s_author_url = None,
            s_author_avatar_url = None\<rparr>],
        r_checksum = 0\<rparr>"
  by (simp add: parse_def FeedParser_init_def plain_deps_def plain_feed_def plain_story_def
      FeedChecksum_update_def or_empty_def parse_feed_def parse_storys_def parse_story_def
      process_content_def validate_result_def validate_feed_def validate_story_def
      bind_def at_key_def T_str_def T_url_def T_datetime_def field_validator_def
      str_check_def http_check_def py_or_def is_null_def)

section \<open>The store of checksum objects\<close>

lemma parse_store:
  "snd (snd (parse D \<sigma> self raw)) =
     \<sigma>[p_checksum self := snd (check_update_storys D (\<sigma> ! p_checksum self) (raw_storys raw))]"
  by (simp add: parse_def Let_def split: prod.splits)

lemma parse_reads_own_checksum:
  "\<sigma> ! p_checksum self = \<sigma>' ! p_checksum self \<Longrightarrow>
     fst (parse D \<sigma> self raw) = fst (parse D \<sigma>' self raw) \<and>
     fst (snd (parse D \<sigma> self raw)) = fst (snd (parse D \<sigma>' self raw))"
  by (simp add: parse_def Let_def split: prod.splits)

lemma parse_result_checksum:
  "fst (parse D \<sigma> self raw) = Inr r \<Longrightarrow> r_checksum r = p_checksum self"
  by (auto simp: parse_def Let_def validate_result_def split: prod.splits if_splits sum.splits)

lemma FeedParser_init_copy:
  "FeedParser_init D \<sigma> (Some a) v = (\<lparr>p_checksum = length \<sigma>, p_validate = v\<rparr>, \<sigma> @ [\<sigma> ! a])"
  by (simp add: FeedParser_init_def)

text \<open>
  C3.  Let two parsers be constructed from the same checksum object \<open>a\<close> of the
  store, whatever \<^verbatim>\<open>FeedChecksum.update\<close> does, and let the first parse and then
  the second.  Both parsers own new objects, different from \<open>a\<close> and from each
  other.  After each parse every object that existed before the constructors ran, the
  passed-in one among them, has the value it had.  A parse advances the parser's own
  object only, from the value \<open>a\<close> had, and a returned \<^verbatim>\<open>FeedResult\<close> refers to
  that object.  The second parser's result and log are what they would have been had
  the first never parsed.  Only a parser constructed from the returned checksum of the
  first starts from the advanced value.
\<close>

theorem constructor_checksum_not_mutated:
  assumes a: "a < length \<sigma>"
  shows
  "(let i1 = FeedParser_init D \<sigma> (Some a) v1; p1 = fst i1; \<sigma>1 = snd i1;
        i2 = FeedParser_init D \<sigma>1 (Some a) v2; p2 = fst i2; \<sigma>2 = snd i2;
        out1 = parse D \<sigma>2 p1 raw1; \<sigma>3 = snd (snd out1);
        out2 = parse D \<sigma>3 p2 raw2; \<sigma>4 = snd (snd out2)
    in p_checksum p1 \<noteq> a \<and> p_checksum p2 \<noteq> a \<and> p_checksum p1 \<noteq> p_checksum p2 \<and>
       take (length \<sigma>) \<sigma>3 = \<sigma> \<and> take (length \<sigma>) \<sigma>4 = \<sigma> \<and>
       \<sigma>3 ! p_checksum p1 = snd (check_update_storys D (\<sigma> ! a) (raw_storys raw1)) \<and>
       \<sigma>4 ! p_checksum p1 = \<sigma>3 ! p_checksum p1 \<and>
       \<sigma>4 ! p_checksum p2 = snd (check_update_storys D (\<sigma> ! a) (raw_storys raw2)) \<and>
       (case fst out1 of Inr r \<Rightarrow> r_checksum r = p_checksum p1 | Inl err \<Rightarrow> True) \<and>
       (case fst out2 of Inr r \<Rightarrow> r_checksum r = p_checksum p2 | Inl err \<Rightarrow> True) \<and>
       fst out2 = fst (parse D \<sigma>2 p2 raw2) \<and>
       fst (snd out2) = fst (snd (parse D \<sigma>2 p2 raw2)) \<and>
       last (snd (FeedParser_init D \<sigma>4 (Some (p_checksum p1)) v3)) =
         snd (check_update_storys D (\<sigma> ! a) (raw_storys raw1)))"
proof -
  define p1 where "p1 = \<lparr>p_checksum = length \<sigma>, p_validate = v1\<rparr>"
  define p2 where "p2 = \<lparr>p_checksum = Suc (length \<sigma>), p_validate = v2\<rparr>"
  define \<sigma>2 where "\<sigma>2 = \<sigma> @ [\<sigma> ! a, \<sigma> ! a]"
  define \<sigma>3 where "\<sigma>3 = snd (snd (parse D \<sigma>2 p1 raw1))"
  define \<sigma>4 where "\<sigma>4 = snd (snd (parse D \<sigma>3 p2 raw2))"
  have i1: "FeedParser_init D \<sigma> (Some a) v1 = (p1, \<sigma> @ [\<sigma> ! a])"
    by (simp add: FeedParser_init_copy p1_def)
  have i2: "FeedParser_init D (\<sigma> @ [\<sigma> ! a]) (Some a) v2 = (p2, \<sigma>2)"
    using a by (simp add: FeedParser_init_copy p2_def \<sigma>2_def nth_append)
  have s3: "\<sigma>3 = \<sigma> @ [snd (check_update_storys D (\<sigma> ! a) (raw_storys raw1)), \<sigma> ! a]"
    by (simp add: \<sigma>3_def parse_store p1_def \<sigma>2_def nth_append list_update_append)
  have s4: "\<sigma>4 = \<sigma> @ [snd (check_update_storys D (\<sigma> ! a) (raw_storys raw1)),
                     snd (check_update_storys D (\<sigma> ! a) (raw_storys raw2))]"
    by (simp add: \<sigma>4_def parse_store p2_def s3 nth_append list_update_append)
  have same: "\<sigma>3 ! p_checksum p2 = \<sigma>2 ! p_checksum p2"
    by (simp add: s3 \<sigma>2_def p2_def nth_append)
  have r1: "(case fst (parse D \<sigma>2 p1 raw1) of Inr r \<Rightarrow> r_checksum r = p_checksum p1 | Inl err \<Rightarrow> True)"
    by (simp add: parse_result_checksum split: sum.splits)
  have r2: "(case fst (parse D \<sigma>3 p2 raw2) of Inr r \<Rightarrow> r_checksum r = p_checksum p2 | Inl err \<Rightarrow> True)"
    by (simp add: parse_result_checksum split: sum.splits)
  have refs: "p_checksum p1 \<noteq> a \<and> p_checksum p2 \<noteq> a \<and> p_checksum p1 \<noteq> p_checksum p2"
    using a by (simp add: p1_def p2_def)
  have vals: "take (length \<sigma>) \<sigma>3 = \<sigma> \<and> take (length \<sigma>) \<sigma>4 = \<sigma> \<and>
       \<sigma>3 ! p_checksum p1 = snd (check_update_storys D (\<sigma> ! a) (raw_storys raw1)) \<and>
       \<sigma>4 ! p_checksum p1 = \<sigma>3 ! p_checksum p1 \<and>
       \<sigma>4 ! p_checksum p2 = snd (check_update_storys D (\<sigma> ! a) (raw_storys raw2))"
    by (simp add: s3 s4 p1_def p2_def nth_append)
  have persisted: "last (snd (FeedParser_init D \<sigma>4 (Some (p_checksum p1)) v3)) =
         snd (check_update_storys D (\<sigma> ! a) (raw_storys raw1))"
    by (simp add: FeedParser_init_copy s4 p1_def nth_append)
  show ?thesis
    unfolding Let_def i1 i2 fst_conv snd_conv
    using refs vals r1 r2 persisted parse_reads_own_checksum [OF same, of D raw2]
    by (simp add: \<sigma>3_def \<sigma>4_def)
qed


text \<open>The theorem at a store of one empty checksum, with two parses of the same feed.\<close>

theorem constructor_checksum_not_mutated_witness:
  "0 < length [Map.empty :: string FeedChecksum] \<and>
   (let raw = \<lparr>raw_feed = plain_feed,
               raw_storys = [plain_story ''a'' (Some ''http://s'') ''c'']\<rparr>;
        i1 = FeedParser_init plain_deps [Map.empty] (Some 0) True; p1 = fst i1; \<sigma>1 = snd i1;
        i2 = FeedParser_init plain_deps \<sigma>1 (Some 0) True; p2 = fst i2; \<sigma>2 = snd i2;
        out1 = parse plain_deps \<sigma>2 p1 raw; \<sigma>3 = snd (snd out1);
        out2 = parse plain_deps \<sigma>3 p2 raw; \<sigma>4 = snd (snd out2)
    in p_checksum p1 \<noteq> 0 \<and> p_checksum p2 \<noteq> 0 \<and> p_checksum p1 \<noteq> p_checksum p2 \<and>
       take (length [Map.empty :: string FeedChecksum]) \<sigma>3 = [Map.empty] \<and>
       take (length [Map.empty :: string FeedChecksum]) \<sigma>4 = [Map.empty] \<and>
       \<sigma>3 ! p_checksum p1 =
         snd (check_update_storys plain_deps ([Map.empty] ! 0) (raw_storys raw)) \<and>
       \<sigma>4 ! p_checksum p1 = \<sigma>3 ! p_checksum p1 \<and>
       \<sigma>4 ! p_checksum p2 =
         snd (check_update_storys plain_deps ([Map.empty] ! 0) (raw_storys raw)) \<and>
       (case fst out1 of Inr r \<Rightarrow> r_checksum r = p_checksum p1 | Inl err \<Rightarrow> True) \<and>
       (case fst out2 of Inr r \<Rightarrow> r_checksum r = p_checksum p2 | Inl err \<Rightarrow> True) \<and>
       fst out2 = fst (parse plain_deps \<sigma>2 p2 raw) \<and>
       fst (snd out2) = fst (snd (parse plain_deps \<sigma>2 p2 raw)) \<and>
       last (snd (FeedParser_init plain_deps \<sigma>4 (Some (p_checksum p1)) True)) =
         snd (check_update_storys plain_deps ([Map.empty] ! 0) (raw_storys raw)))"
proof -
  have h: "0 < length [Map.empty :: string FeedChecksum]" by simp
  from h constructor_checksum_not_mutated [OF h, of plain_deps True True
        "\<lparr>raw_feed = plain_feed, raw_storys = [plain_story ''a'' (Some ''http://s'') ''c'']\<rparr>"
        "\<lparr>raw_feed = plain_feed, raw_storys = [plain_story ''a'' (Some ''http://s'') ''c'']\<rparr>"
        True, unfolded Let_def]
  show ?thesis
    unfolding Let_def by (rule conjI)
qed

section \<open>The checksum filter on \<^verbatim>\<open>FeedChecksum\<close>\<close>

lemma parse_unfold:
  "parse D \<sigma> self raw =
     (let cu = check_update_storys D (\<sigma> ! p_checksum self) (raw_storys raw);
          feed = parse_feed D (raw_feed raw);
          ps = parse_storys D (fst cu) (f_url feed);
          result = \<lparr>r_feed = feed, r_storys = fst ps, r_checksum = p_checksum self\<rparr>
      in (if p_validate self then validate_result D result else Inr result, snd ps,
          \<sigma>[p_checksum self := snd cu]))"
  by (simp add: parse_def Let_def split: prod.splits)

lemma check_update_storys_Cons:
  "check_update_storys D c (s # ss) =
     (let u = checksum_update D c (rs_ident s) (or_empty (rs_content s));
          r = check_update_storys D (snd u) ss
      in (if fst u then s # fst r else fst r, snd r))"
  by (simp add: Let_def case_prod_beta)

lemma FeedChecksum_step:
  assumes "checksum_update D = FeedChecksum_update h"
  shows "check_update_storys D c (s # ss) =
     (if c (rs_ident s) = Some (h (or_empty (rs_content s)))
      then check_update_storys D c ss
      else (s # fst (check_update_storys D (c(rs_ident s \<mapsto> h (or_empty (rs_content s)))) ss),
            snd (check_update_storys D (c(rs_ident s \<mapsto> h (or_empty (rs_content s)))) ss)))"
  by (simp add: check_update_storys_Cons assms FeedChecksum_update_def Let_def del: check_update_storys.simps)

lemma check_update_storys_untouched:
  assumes "checksum_update D = FeedChecksum_update h"
    and "k \<notin> rs_ident ` set ss"
  shows "snd (check_update_storys D c ss) k = c k"
  using assms(2)
proof (induction ss arbitrary: c)
  case Nil
  then show ?case by simp
next
  case (Cons s ss)
  then show ?case
    by (simp add: FeedChecksum_step [OF assms(1)] del: check_update_storys.simps)
qed

lemma check_update_storys_dom:
  assumes "checksum_update D = FeedChecksum_update h"
  shows "dom (snd (check_update_storys D c ss)) = dom c \<union> rs_ident ` set ss"
proof (induction ss arbitrary: c)
  case Nil
  then show ?case by simp
next
  case (Cons s ss)
  show ?case
  proof (cases "c (rs_ident s) = Some (h (or_empty (rs_content s)))")
    case True
    then have "rs_ident s \<in> dom c" by auto
    with True Cons.IH [of c] show ?thesis
      by (simp add: FeedChecksum_step [OF assms] insert_absorb del: check_update_storys.simps)
  next
    case False
    have ih: "dom (snd (check_update_storys D (c(rs_ident s \<mapsto> h (or_empty (rs_content s)))) ss)) =
        dom (c(rs_ident s \<mapsto> h (or_empty (rs_content s)))) \<union> rs_ident ` set ss"
      by (rule Cons.IH)
    from False show ?thesis
      by (simp add: FeedChecksum_step [OF assms] ih del: check_update_storys.simps)
  qed
qed

lemma check_update_storys_stored:
  assumes "checksum_update D = FeedChecksum_update h"
    and "distinct (map rs_ident ss)" and "s \<in> set ss"
  shows "snd (check_update_storys D c ss) (rs_ident s) = Some (h (or_empty (rs_content s)))"
  using assms(2,3)
proof (induction ss arbitrary: c)
  case Nil
  then show ?case by simp
next
  case (Cons x ss)
  show ?case
  proof (cases "s = x")
    case True
    from Cons.prems have "rs_ident x \<notin> rs_ident ` set ss" by simp
    from check_update_storys_untouched [OF assms(1) this]
    show ?thesis
      by (simp add: True FeedChecksum_step [OF assms(1)] del: check_update_storys.simps)
  next
    case False
    with Cons.prems have "s \<in> set ss" "distinct (map rs_ident ss)" by simp_all
    with Cons.IH show ?thesis
      by (simp add: FeedChecksum_step [OF assms(1)] del: check_update_storys.simps)
  qed
qed

lemma check_update_storys_unchanged:
  assumes "checksum_update D = FeedChecksum_update h"
    and "\<And>s. s \<in> set ss \<Longrightarrow> c (rs_ident s) = Some (h (or_empty (rs_content s)))"
  shows "check_update_storys D c ss = ([], c)"
  using assms(2)
proof (induction ss)
  case Nil
  then show ?case by simp
next
  case (Cons s ss)
  then show ?case
    by (simp add: FeedChecksum_step [OF assms(1)] del: check_update_storys.simps)
qed

lemma check_update_storys_all_new:
  assumes "checksum_update D = FeedChecksum_update h"
    and "distinct (map rs_ident ss)"
    and "\<And>s. s \<in> set ss \<Longrightarrow> c (rs_ident s) \<noteq> Some (h (or_empty (rs_content s)))"
  shows "fst (check_update_storys D c ss) = ss"
  using assms(2,3)
proof (induction ss arbitrary: c)
  case Nil
  then show ?case by simp
next
  case (Cons x ss)
  let ?c = "c(rs_ident x \<mapsto> h (or_empty (rs_content x)))"
  have "?c (rs_ident s) \<noteq> Some (h (or_empty (rs_content s)))" if "s \<in> set ss" for s
  proof -
    from that Cons.prems(1) have "rs_ident s \<noteq> rs_ident x" by (auto simp: image_iff)
    with Cons.prems(2) [of s] that show ?thesis by simp
  qed
  moreover from Cons.prems(1) have "distinct (map rs_ident ss)" by simp
  ultimately have ih: "fst (check_update_storys D ?c ss) = ss" by (rule Cons.IH [rotated])
  from Cons.prems(2) [of x] show ?case
    by (simp add: FeedChecksum_step [OF assms(1)] ih del: check_update_storys.simps)
qed

lemma check_update_storys_again:
  assumes "checksum_update D = FeedChecksum_update h"
    and "distinct (map rs_ident ss)"
  shows "check_update_storys D (snd (check_update_storys D c ss)) ss =
           ([], snd (check_update_storys D c ss))"
  using check_update_storys_unchanged [OF assms(1)] check_update_storys_stored [OF assms]
  by blast


lemma parse_feed_url: "f_url (parse_feed D f) = rf_url f"
  by (simp add: parse_feed_def Let_def)

lemma validate_result_storys:
  "validate_result D result = Inr r \<Longrightarrow> map s_ident (r_storys r) = map s_ident (r_storys result)"
  by (auto simp: validate_result_def split: sum.splits dest: validate_storys_idents)

lemma parse_Inr_idents:
  assumes "fst (parse D \<sigma> self raw) = Inr r"
  shows "map s_ident (r_storys r) =
     map (\<lambda>s. Some (take 200 (rs_ident s)))
       (fst (check_update_storys D (\<sigma> ! p_checksum self) (raw_storys raw)))"
proof (cases "p_validate self")
  case True
  with assms validate_result_storys [of D _ r] show ?thesis
    by (simp add: parse_unfold Let_def parse_storys_idents)
next
  case False
  with assms show ?thesis
    by (auto simp: parse_unfold Let_def parse_storys_idents)
qed

text \<open>
  C2, as the code has it, on \<^verbatim>\<open>FeedChecksum\<close> as the spec describes it.  Let the
  stories of a raw feed have pairwise distinct idents.  After a parser has parsed the
  feed, its checksum retains no story of the same feed: a second \<^verbatim>\<open>parse\<close> by
  the same parser is the parse of the feed with no story, logs nothing and leaves the
  store as it is.  A parser constructed without a checksum retains every story: its
  \<^verbatim>\<open>parse\<close> is the parse of all of them, and when it returns, the result has one
  story for each raw story, in order.
\<close>

theorem checksum_filter_idempotent:
  assumes "uses_FeedChecksum h D"
    and "distinct (map rs_ident (raw_storys raw))"
    and "p_checksum self < length \<sigma>"
  shows
  "(let out1 = parse D \<sigma> self raw; \<sigma>1 = snd (snd out1);
        out2 = parse D \<sigma>1 self raw;
        nothing = \<lparr>r_feed = parse_feed D (raw_feed raw), r_storys = [],
                   r_checksum = p_checksum self\<rparr>
    in fst (check_update_storys D (\<sigma>1 ! p_checksum self) (raw_storys raw)) = [] \<and>
       fst out2 = (if p_validate self then validate_result D nothing else Inr nothing) \<and>
       fst (snd out2) = [] \<and> snd (snd out2) = \<sigma>1) \<and>
   (let new = FeedParser_init D \<sigma> None v; p0 = fst new; \<sigma>0 = snd new;
        out = parse D \<sigma>0 p0 raw;
        every = \<lparr>r_feed = parse_feed D (raw_feed raw),
                 r_storys = fst (parse_storys D (raw_storys raw) (rf_url (raw_feed raw))),
                 r_checksum = p_checksum p0\<rparr>
    in fst (check_update_storys D (\<sigma>0 ! p_checksum p0) (raw_storys raw)) = raw_storys raw \<and>
       fst out = (if v then validate_result D every else Inr every) \<and>
       (case fst out of
          Inr r \<Rightarrow> map s_ident (r_storys r) =
                     map (\<lambda>s. Some (take 200 (rs_ident s))) (raw_storys raw)
        | Inl err \<Rightarrow> True))"
proof -
  from assms(1) have upd: "checksum_update D = FeedChecksum_update h"
    and new: "checksum_new D = Map.empty"
    by (simp_all add: uses_FeedChecksum_def)
  define c1 where "c1 = snd (check_update_storys D (\<sigma> ! p_checksum self) (raw_storys raw))"
  define \<sigma>1 where "\<sigma>1 = \<sigma>[p_checksum self := c1]"
  have s1: "snd (snd (parse D \<sigma> self raw)) = \<sigma>1"
    by (simp add: parse_store \<sigma>1_def c1_def)
  have own: "\<sigma>1 ! p_checksum self = c1"
    using assms(3) by (simp add: \<sigma>1_def)
  have again: "check_update_storys D c1 (raw_storys raw) = ([], c1)"
    unfolding c1_def by (rule check_update_storys_again [OF upd assms(2)])
  have second: "parse D \<sigma>1 self raw =
      (if p_validate self
       then validate_result D \<lparr>r_feed = parse_feed D (raw_feed raw), r_storys = [],
                                r_checksum = p_checksum self\<rparr>
       else Inr \<lparr>r_feed = parse_feed D (raw_feed raw), r_storys = [],
                 r_checksum = p_checksum self\<rparr>, [], \<sigma>1[p_checksum self := c1])"
    by (simp add: parse_unfold own again parse_storys_def Let_def)
  have same: "\<sigma>1[p_checksum self := c1] = \<sigma>1"
    by (simp add: \<sigma>1_def)
  define p0 where "p0 = \<lparr>p_checksum = length \<sigma>, p_validate = v\<rparr>"
  define \<sigma>0 where "\<sigma>0 = \<sigma> @ [Map.empty :: 'a FeedChecksum]"
  have init: "FeedParser_init D \<sigma> None v = (p0, \<sigma>0)"
    by (simp add: FeedParser_init_def p0_def \<sigma>0_def new)
  have own0: "\<sigma>0 ! p_checksum p0 = Map.empty"
    by (simp add: \<sigma>0_def p0_def)
  have pv: "p_validate p0 = v"
    by (simp add: p0_def)
  have all: "fst (check_update_storys D Map.empty (raw_storys raw)) = raw_storys raw"
    by (rule check_update_storys_all_new [OF upd assms(2)]) simp
  have first: "fst (parse D \<sigma>0 p0 raw) =
      (if v
       then validate_result D \<lparr>r_feed = parse_feed D (raw_feed raw),
              r_storys = fst (parse_storys D (raw_storys raw) (rf_url (raw_feed raw))),
              r_checksum = p_checksum p0\<rparr>
       else Inr \<lparr>r_feed = parse_feed D (raw_feed raw),
              r_storys = fst (parse_storys D (raw_storys raw) (rf_url (raw_feed raw))),
              r_checksum = p_checksum p0\<rparr>)"
    by (simp add: parse_unfold own0 all Let_def pv parse_feed_url)
  have idents: "(case fst (parse D \<sigma>0 p0 raw) of
          Inr r \<Rightarrow> map s_ident (r_storys r) =
                     map (\<lambda>s. Some (take 200 (rs_ident s))) (raw_storys raw)
        | Inl err \<Rightarrow> True)"
    using parse_Inr_idents [of D \<sigma>0 p0 raw] by (simp add: own0 all split: sum.splits)
  show ?thesis
    unfolding Let_def s1 init fst_conv snd_conv
    using first idents by (simp add: second same own again own0 all)
qed


lemma plain_deps_FeedChecksum: "uses_FeedChecksum (\<lambda>content. content) plain_deps"
  by (simp add: uses_FeedChecksum_def plain_deps_def)

text \<open>The theorem at a feed of two stories with idents \<open>a\<close> and \<open>b\<close>.\<close>

theorem checksum_filter_idempotent_witness:
  "uses_FeedChecksum (\<lambda>content. content) plain_deps \<and>
   distinct (map rs_ident
     [plain_story ''a'' (Some ''http://a'') ''x'', plain_story ''b'' (Some ''http://b'') ''y'']) \<and>
   0 < length [Map.empty :: string FeedChecksum] \<and>
   fst (check_update_storys plain_deps
         (snd (snd (parse plain_deps [Map.empty] \<lparr>p_checksum = 0, p_validate = True\<rparr>
            \<lparr>raw_feed = plain_feed,
             raw_storys = [plain_story ''a'' (Some ''http://a'') ''x'',
                           plain_story ''b'' (Some ''http://b'') ''y'']\<rparr>)) ! 0)
         [plain_story ''a'' (Some ''http://a'') ''x'',
          plain_story ''b'' (Some ''http://b'') ''y'']) = [] \<and>
   fst (check_update_storys plain_deps
         (snd (FeedParser_init plain_deps [Map.empty] None True) !
            p_checksum (fst (FeedParser_init plain_deps [Map.empty] None True)))
         [plain_story ''a'' (Some ''http://a'') ''x'',
          plain_story ''b'' (Some ''http://b'') ''y'']) =
     [plain_story ''a'' (Some ''http://a'') ''x'', plain_story ''b'' (Some ''http://b'') ''y'']"
proof -
  let ?ss = "[plain_story ''a'' (Some ''http://a'') ''x'',
              plain_story ''b'' (Some ''http://b'') ''y'']"
  have d: "distinct (map rs_ident ?ss)"
    by (simp add: plain_story_def)
  have l: "p_checksum \<lparr>p_checksum = 0, p_validate = True\<rparr> < length [Map.empty :: string FeedChecksum]"
    by simp
  from checksum_filter_idempotent [OF plain_deps_FeedChecksum, of "\<lparr>raw_feed = plain_feed, raw_storys = ?ss\<rparr>"
      "\<lparr>p_checksum = 0, p_validate = True\<rparr>" "[Map.empty]" True]
    d l plain_deps_FeedChecksum
  show ?thesis
    by (simp add: Let_def)
qed

text \<open>
  C2 as stated fails on a feed whose stories share an ident.  Two stories with ident
  \<open>a\<close> and contents \<open>x\<close> and \<open>y\<close>: each overwrites the hash of the other, so
  the second parse with the same checksum retains both again.  Two stories with ident
  \<open>a\<close> and the same content: a fresh checksum retains the first only.
\<close>

theorem duplicate_idents_retained_again:
  "(let raw = \<lparr>raw_feed = plain_feed,
               raw_storys = [plain_story ''a'' (Some ''http://a'') ''x'',
                             plain_story ''a'' (Some ''http://a'') ''y'']\<rparr>;
        new = FeedParser_init plain_deps [] None True;
        out1 = parse plain_deps (snd new) (fst new) raw;
        out2 = parse plain_deps (snd (snd out1)) (fst new) raw
    in (case fst out2 of
          Inr r \<Rightarrow> map s_content (r_storys r) = [Some ''x'', Some ''y'']
        | Inl err \<Rightarrow> False)) \<and>
   (let raw = \<lparr>raw_feed = plain_feed,
               raw_storys = [plain_story ''a'' (Some ''http://a'') ''x'',
                             plain_story ''a'' (Some ''http://a'') ''x'']\<rparr>;
        new = FeedParser_init plain_deps [] None True;
        out = parse plain_deps (snd new) (fst new) raw
    in (case fst out of
          Inr r \<Rightarrow> map s_content (r_storys r) = [Some ''x'']
        | Inl err \<Rightarrow> False))"
  by (simp add: parse_def FeedParser_init_def plain_deps_def plain_feed_def plain_story_def
      FeedChecksum_update_def or_empty_def parse_feed_def parse_storys_def parse_story_def
      process_content_def validate_result_def validate_feed_def validate_story_def
      bind_def at_key_def T_str_def T_url_def T_datetime_def field_validator_def
      str_check_def http_check_def py_or_def is_null_def Let_def)


lemma check_update_storys_calls:
  "snd (check_update_storys D c ss) =
     foldl (\<lambda>c s. snd (checksum_update D c (rs_ident s) (or_empty (rs_content s)))) c ss"
  by (induction ss arbitrary: c)
     (simp_all add: check_update_storys_Cons Let_def del: check_update_storys.simps(2))

lemma check_update_storys_subset:
  "set (fst (check_update_storys D c ss)) \<subseteq> set ss"
proof (induction ss arbitrary: c)
  case Nil
  then show ?case by simp
next
  case (Cons s ss)
  from Cons [of "snd (checksum_update D c (rs_ident s) (or_empty (rs_content s)))"]
  show ?case
    by (auto simp: check_update_storys_Cons Let_def simp del: check_update_storys.simps)
qed

text \<open>
  C10.  Whatever \<^verbatim>\<open>FeedChecksum.update\<close> does, \<^verbatim>\<open>parse\<close> advances the
  parser's checksum by one \<^verbatim>\<open>update\<close> per raw story, called with the full raw
  ident and the raw content, and the returned stories carry the first 200 characters of
  the idents of the retained stories.  On \<^verbatim>\<open>FeedChecksum\<close> as the spec describes
  it, and for stories with pairwise distinct idents: after \<^verbatim>\<open>parse\<close> the checksum
  holds the content hash of every story under the full raw ident, and its keys are the
  keys it had and the full raw idents.  So for a retained story whose raw ident is
  longer than 200 characters, the hash is stored under the raw ident and the returned
  ident is not that key; and two raw stories whose idents differ only after character
  200 have an entry each in the checksum and the same ident once parsed.
\<close>

theorem output_ident_is_not_checksum_key:
  assumes "p_checksum self < length \<sigma>"
  shows
  "(let out = parse D \<sigma> self raw;
        c' = snd (snd out) ! p_checksum self;
        kept = fst (check_update_storys D (\<sigma> ! p_checksum self) (raw_storys raw))
    in c' = foldl (\<lambda>c s. snd (checksum_update D c (rs_ident s) (or_empty (rs_content s))))
              (\<sigma> ! p_checksum self) (raw_storys raw) \<and>
       (case fst out of
          Inr r \<Rightarrow> map s_ident (r_storys r) = map (\<lambda>s. Some (take 200 (rs_ident s))) kept
        | Inl err \<Rightarrow> True) \<and>
       (uses_FeedChecksum h D \<and> distinct (map rs_ident (raw_storys raw)) \<longrightarrow>
          map c' (map rs_ident (raw_storys raw)) =
            map (\<lambda>s. Some (h (or_empty (rs_content s)))) (raw_storys raw) \<and>
          dom c' = dom (\<sigma> ! p_checksum self) \<union> rs_ident ` set (raw_storys raw) \<and>
          (\<forall>i < length kept. 200 < length (rs_ident (kept ! i)) \<longrightarrow>
             c' (rs_ident (kept ! i)) = Some (h (or_empty (rs_content (kept ! i)))) \<and>
             (case fst out of
                Inr r \<Rightarrow> s_ident (r_storys r ! i) \<noteq> Some (rs_ident (kept ! i))
              | Inl err \<Rightarrow> True)) \<and>
          (\<forall>s1 \<in> set (raw_storys raw). \<forall>s2 \<in> set (raw_storys raw).
             rs_ident s1 \<noteq> rs_ident s2 \<and> take 200 (rs_ident s1) = take 200 (rs_ident s2) \<longrightarrow>
             c' (rs_ident s1) = Some (h (or_empty (rs_content s1))) \<and>
             c' (rs_ident s2) = Some (h (or_empty (rs_content s2))) \<and>
             s_ident (fst (parse_story D s1 (rf_url (raw_feed raw)))) =
             s_ident (fst (parse_story D s2 (rf_url (raw_feed raw)))))))"
proof -
  define kept where "kept = fst (check_update_storys D (\<sigma> ! p_checksum self) (raw_storys raw))"
  define c' where "c' = snd (check_update_storys D (\<sigma> ! p_checksum self) (raw_storys raw))"
  have own: "snd (snd (parse D \<sigma> self raw)) ! p_checksum self = c'"
    using assms by (simp add: parse_store c'_def)
  have calls: "c' = foldl (\<lambda>c s. snd (checksum_update D c (rs_ident s) (or_empty (rs_content s))))
              (\<sigma> ! p_checksum self) (raw_storys raw)"
    unfolding c'_def by (rule check_update_storys_calls)
  have idents: "map s_ident (r_storys r) = map (\<lambda>s. Some (take 200 (rs_ident s))) kept"
    if "fst (parse D \<sigma> self raw) = Inr r" for r
    unfolding kept_def by (rule parse_Inr_idents [OF that])
  have res: "(case fst (parse D \<sigma> self raw) of
          Inr r \<Rightarrow> map s_ident (r_storys r) = map (\<lambda>s. Some (take 200 (rs_ident s))) kept
        | Inl err \<Rightarrow> True)"
    using idents by (simp split: sum.splits)
  have checksum: "map c' (map rs_ident (raw_storys raw)) =
            map (\<lambda>s. Some (h (or_empty (rs_content s)))) (raw_storys raw) \<and>
          dom c' = dom (\<sigma> ! p_checksum self) \<union> rs_ident ` set (raw_storys raw) \<and>
          (\<forall>i < length kept. 200 < length (rs_ident (kept ! i)) \<longrightarrow>
             c' (rs_ident (kept ! i)) = Some (h (or_empty (rs_content (kept ! i)))) \<and>
             (case fst (parse D \<sigma> self raw) of
                Inr r \<Rightarrow> s_ident (r_storys r ! i) \<noteq> Some (rs_ident (kept ! i))
              | Inl err \<Rightarrow> True)) \<and>
          (\<forall>s1 \<in> set (raw_storys raw). \<forall>s2 \<in> set (raw_storys raw).
             rs_ident s1 \<noteq> rs_ident s2 \<and> take 200 (rs_ident s1) = take 200 (rs_ident s2) \<longrightarrow>
             c' (rs_ident s1) = Some (h (or_empty (rs_content s1))) \<and>
             c' (rs_ident s2) = Some (h (or_empty (rs_content s2))) \<and>
             s_ident (fst (parse_story D s1 (rf_url (raw_feed raw)))) =
             s_ident (fst (parse_story D s2 (rf_url (raw_feed raw)))))"
    if u: "uses_FeedChecksum h D" and d: "distinct (map rs_ident (raw_storys raw))"
  proof -
    from u have upd: "checksum_update D = FeedChecksum_update h"
      by (simp add: uses_FeedChecksum_def)
    have stored: "c' (rs_ident s) = Some (h (or_empty (rs_content s)))" if "s \<in> set (raw_storys raw)" for s
      unfolding c'_def by (rule check_update_storys_stored [OF upd d that])
    then have all: "map c' (map rs_ident (raw_storys raw)) =
           map (\<lambda>s. Some (h (or_empty (rs_content s)))) (raw_storys raw)"
      by simp
    have keys: "dom c' = dom (\<sigma> ! p_checksum self) \<union> rs_ident ` set (raw_storys raw)"
      unfolding c'_def by (rule check_update_storys_dom [OF upd])
    have sub: "set kept \<subseteq> set (raw_storys raw)"
      unfolding kept_def by (rule check_update_storys_subset)
    have long: "c' (rs_ident (kept ! i)) = Some (h (or_empty (rs_content (kept ! i)))) \<and>
            (case fst (parse D \<sigma> self raw) of
               Inr r \<Rightarrow> s_ident (r_storys r ! i) \<noteq> Some (rs_ident (kept ! i))
             | Inl err \<Rightarrow> True)"
      if i: "i < length kept" and l: "200 < length (rs_ident (kept ! i))" for i
    proof
      from i sub have "kept ! i \<in> set (raw_storys raw)" by auto
      then show "c' (rs_ident (kept ! i)) = Some (h (or_empty (rs_content (kept ! i))))"
        by (rule stored)
      show "case fst (parse D \<sigma> self raw) of
               Inr r \<Rightarrow> s_ident (r_storys r ! i) \<noteq> Some (rs_ident (kept ! i))
             | Inl err \<Rightarrow> True"
      proof (cases "fst (parse D \<sigma> self raw)")
        case (Inl err)
        then show ?thesis by simp
      next
        case (Inr r)
        from idents [OF Inr] i have "s_ident (r_storys r ! i) = Some (take 200 (rs_ident (kept ! i)))"
          by (metis length_map nth_map)
        moreover from l have "take 200 (rs_ident (kept ! i)) \<noteq> rs_ident (kept ! i)"
          by (metis length_take min.absorb2 less_imp_le_nat nat_neq_iff)
        ultimately show ?thesis using Inr by simp
      qed
    qed
    from all keys long stored show ?thesis
      by (simp add: parse_story_ident)
  qed
  show ?thesis
    unfolding Let_def own kept_def [symmetric]
    using calls res checksum by blast
qed


text \<open>
  The theorem at two stories whose idents are 200 times \<open>a\<close> followed by \<open>1\<close> and
  by \<open>2\<close>: two entries in the checksum, none under the 200 times \<open>a\<close> both
  returned stories carry.
\<close>

theorem output_ident_is_not_checksum_key_witness:
  "uses_FeedChecksum (\<lambda>content. content) plain_deps \<and>
   p_checksum \<lparr>p_checksum = 0, p_validate = True\<rparr> < length [Map.empty :: string FeedChecksum] \<and>
   distinct (map rs_ident
     [plain_story (replicate 200 CHR ''a'' @ ''1'') (Some ''http://a'') ''x'',
      plain_story (replicate 200 CHR ''a'' @ ''2'') (Some ''http://b'') ''y'']) \<and>
   (let out = parse plain_deps [Map.empty] \<lparr>p_checksum = 0, p_validate = True\<rparr>
          \<lparr>raw_feed = plain_feed,
           raw_storys =
             [plain_story (replicate 200 CHR ''a'' @ ''1'') (Some ''http://a'') ''x'',
              plain_story (replicate 200 CHR ''a'' @ ''2'') (Some ''http://b'') ''y'']\<rparr>;
        c' = snd (snd out) ! 0
    in c' (replicate 200 CHR ''a'' @ ''1'') = Some ''x'' \<and>
       c' (replicate 200 CHR ''a'' @ ''2'') = Some ''y'' \<and>
       c' (replicate 200 CHR ''a'') = None \<and>
       (case fst out of
          Inr r \<Rightarrow> map s_ident (r_storys r) =
                     [Some (replicate 200 CHR ''a''), Some (replicate 200 CHR ''a'')]
        | Inl err \<Rightarrow> False))"
proof -
  let ?ss = "[plain_story (replicate 200 CHR ''a'' @ ''1'') (Some ''http://a'') ''x'',
              plain_story (replicate 200 CHR ''a'' @ ''2'') (Some ''http://b'') ''y'']"
  let ?self = "\<lparr>p_checksum = 0, p_validate = True\<rparr>"
  have d: "distinct (map rs_ident ?ss)"
    by (simp add: plain_story_def)
  have l: "p_checksum ?self < length [Map.empty :: string FeedChecksum]"
    by simp
  have u: "uses_FeedChecksum (\<lambda>content. content) plain_deps"
    by (simp add: uses_FeedChecksum_def plain_deps_def)
  have ok: "(case fst (parse plain_deps [Map.empty] ?self \<lparr>raw_feed = plain_feed, raw_storys = ?ss\<rparr>) of
          Inr r \<Rightarrow> True | Inl err \<Rightarrow> False)"
    by (simp add: parse_def plain_deps_def plain_feed_def plain_story_def
      FeedChecksum_update_def or_empty_def parse_feed_def parse_storys_def parse_story_def
      process_content_def validate_result_def validate_feed_def validate_story_def
      bind_def at_key_def T_str_def T_url_def T_datetime_def field_validator_def
      str_check_def http_check_def py_or_def is_null_def Let_def)
  have kept: "fst (check_update_storys plain_deps ([Map.empty] ! 0) ?ss) = ?ss"
    by (simp add: plain_deps_def plain_story_def FeedChecksum_update_def or_empty_def Let_def)
  have d': "distinct (map rs_ident (raw_storys \<lparr>raw_feed = plain_feed, raw_storys = ?ss\<rparr>))"
    using d by simp
  note T = output_ident_is_not_checksum_key [OF l, where D = plain_deps
      and raw = "\<lparr>raw_feed = plain_feed, raw_storys = ?ss\<rparr>" and h = "\<lambda>content. content",
      unfolded Let_def]
  note res = T [THEN conjunct2, THEN conjunct1]
  note C = T [THEN conjunct2, THEN conjunct2, THEN mp, OF conjI [OF u d']]
  note vals = C [THEN conjunct1]
  note keys = C [THEN conjunct2, THEN conjunct1]
  from keys have none: "replicate 200 CHR ''a'' \<notin>
      dom (snd (snd (parse plain_deps [Map.empty] ?self \<lparr>raw_feed = plain_feed, raw_storys = ?ss\<rparr>)) ! 0)"
    by (simp add: plain_story_def)
  from vals res none ok kept d l u show ?thesis
    unfolding Let_def
    by (auto simp: plain_story_def or_empty_def domIff split: sum.splits)
qed

section \<open>Which key of a story fails\<close>











section \<open>The stories of a parse, one by one\<close>






section \<open>When a story passes the schema\<close>












section \<open>Content\<close>







section \<open>Urls\<close>






section \<open>The fetcher of the spec\<close>








end
